theory Spec2Isabelle
  imports Main "HOL-Library.Sublist" "HOL-Library.AList"
begin

section \<open>Strings and numbers of the host language\<close>

text \<open>
  The page (\<^verbatim>\<open>src/app/page.tsx\<close>) works on JavaScript strings and numbers. A string is
  modelled as a \<^typ>\<open>string\<close>, one \<^typ>\<open>char\<close> per code unit, for the code units
  U+0000 to U+00FF (Latin-1); \<^verbatim>\<open>length\<close>, \<^verbatim>\<open>substring\<close> and \<^verbatim>\<open>includes\<close> count code
  units, as the list operations count characters.

  A number is a double. The numbers of this page come from integer constants,
  \<^verbatim>\<open>parseInt\<close>, \<^verbatim>\<open>+\<close>, \<^verbatim>\<open>-\<close> and \<^verbatim>\<open>Math.max\<close>, so each is \<^verbatim>\<open>NaN\<close>, an infinity, or a
  double whose value is an integer: \<^term>\<open>Num i\<close> stands for the double of value \<open>i\<close>.
  Every result is rounded as the host rounds it, to the nearest double, to the even
  significand on a tie, and to an infinity from \<open>2^1024 - 2^970\<close> on. The two zeros are not
  told apart: the page can get \<^verbatim>\<open>-0\<close> from \<^verbatim>\<open>parseInt\<close> only, and what it does with a
  balance (\<^verbatim>\<open>< 75\<close>, \<^verbatim>\<open>- 75\<close>, \<^verbatim>\<open>+ amount\<close>, \<^verbatim>\<open>Math.max(0, _)\<close>, \<^verbatim>\<open>toString()\<close>)
  gives the same for both.
\<close>

datatype number = NaN | Num int | PosInf | NegInf

text \<open>The number of binary digits of a positive integer; the nearest integer that a
  double holds, with its 53 binary digits of significand; the double of an integer.\<close>

function bitlen :: "int \<Rightarrow> nat" where
  "bitlen n = (if n \<le> 0 then 0 else Suc (bitlen (n div 2)))"
  by pat_completeness auto
termination
  by (relation "measure nat") auto

declare bitlen.simps [simp del]

definition round53 :: "int \<Rightarrow> int" where
  "round53 n =
     (let u = 2 ^ (bitlen n - 53); q = n div u; r = n mod u
      in if 2 * r < u then q * u
         else if u < 2 * r then (q + 1) * u
         else if even q then q * u else (q + 1) * u)"

definition dbl :: "int \<Rightarrow> number" where
  "dbl i =
     (let m = round53 \<bar>i\<bar>
      in if 2 ^ 1024 \<le> m then (if i < 0 then NegInf else PosInf)
         else Num (if i < 0 then - m else m))"

text \<open>\<^verbatim>\<open>a < b\<close>, \<^verbatim>\<open>-a\<close>, \<^verbatim>\<open>a + b\<close>, \<^verbatim>\<open>a - b\<close> and \<^verbatim>\<open>Math.max(a, b)\<close>: every comparison with
  \<^verbatim>\<open>NaN\<close> is false and every operation on it gives \<^verbatim>\<open>NaN\<close>, as does the sum of the two
  infinities; a sum or difference of two finite numbers is rounded.\<close>

fun num_less :: "number \<Rightarrow> number \<Rightarrow> bool" where
  "num_less (Num a) (Num b) = (a < b)"
| "num_less (Num a) PosInf = True"
| "num_less NegInf (Num b) = True"
| "num_less NegInf PosInf = True"
| "num_less _ _ = False"

fun num_neg :: "number \<Rightarrow> number" where
  "num_neg (Num a) = Num (- a)"
| "num_neg PosInf = NegInf"
| "num_neg NegInf = PosInf"
| "num_neg NaN = NaN"

fun num_plus :: "number \<Rightarrow> number \<Rightarrow> number" where
  "num_plus (Num a) (Num b) = dbl (a + b)"
| "num_plus NaN _ = NaN"
| "num_plus _ NaN = NaN"
| "num_plus PosInf NegInf = NaN"
| "num_plus NegInf PosInf = NaN"
| "num_plus PosInf _ = PosInf"
| "num_plus NegInf _ = NegInf"
| "num_plus _ PosInf = PosInf"
| "num_plus _ NegInf = NegInf"

definition num_minus :: "number \<Rightarrow> number \<Rightarrow> number" where
  "num_minus a b = num_plus a (num_neg b)"

definition Math_max :: "number \<Rightarrow> number \<Rightarrow> number" where
  "Math_max a b = (if a = NaN \<or> b = NaN then NaN else if num_less a b then b else a)"

text \<open>White space and line terminators that \<^verbatim>\<open>String.prototype.trim\<close> and \<^verbatim>\<open>parseInt\<close>
  strip, within Latin-1: TAB, LF, VT, FF, CR, SPACE and NBSP.\<close>

definition isWhiteSpace :: "char \<Rightarrow> bool" where
  "isWhiteSpace c =
     (let n = (of_char c :: nat)
      in n = 9 \<or> n = 10 \<or> n = 11 \<or> n = 12 \<or> n = 13 \<or> n = 32 \<or> n = 160)"

definition trim :: "string \<Rightarrow> string" where
  "trim s = rev (dropWhile isWhiteSpace (rev (dropWhile isWhiteSpace s)))"

text \<open>\<^verbatim>\<open>toLowerCase\<close> within Latin-1: the letters A to Z and U+00C0 to U+00DE, the
  multiplication sign U+00D7 apart, move up by 32; every other code unit stays.\<close>

definition lower_char :: "char \<Rightarrow> char" where
  "lower_char c =
     (let n = (of_char c :: nat)
      in if (65 \<le> n \<and> n \<le> 90) \<or> (192 \<le> n \<and> n \<le> 222 \<and> n \<noteq> 215)
         then char_of (n + 32) else c)"

definition toLowerCase :: "string \<Rightarrow> string" where
  "toLowerCase s = map lower_char s"

text \<open>\<^verbatim>\<open>s.includes(sub)\<close>: \<^verbatim>\<open>sub\<close> occurs in \<^verbatim>\<open>s\<close> at some position.\<close>

fun str_includes :: "string \<Rightarrow> string \<Rightarrow> bool" where
  "str_includes [] sub = (sub = [])"
| "str_includes (c # cs) sub = (prefix sub (c # cs) \<or> str_includes cs sub)"

text \<open>\<^verbatim>\<open>s.substring(0, n)\<close> for \<open>n \<ge> 0\<close> is \<^term>\<open>take n s\<close>; \<^verbatim>\<open>a || b\<close> on strings takes
  \<^verbatim>\<open>b\<close> when \<^verbatim>\<open>a\<close> is \<^verbatim>\<open>undefined\<close> or empty.\<close>

fun or_else :: "string option \<Rightarrow> string \<Rightarrow> string" where
  "or_else None b = b"
| "or_else (Some a) b = (if a = [] then b else a)"

text \<open>The digits of a non-negative integer in a radix, as \<^verbatim>\<open>toString(36)\<close> writes the
  clock (an integer far below \<open>2^53\<close>), and the decimal digits of a non-negative integer.\<close>

definition digit_char :: "nat \<Rightarrow> char" where
  "digit_char d = (if d < 10 then char_of (48 + d) else char_of (87 + d))"

function toRadix :: "nat \<Rightarrow> nat \<Rightarrow> string" where
  "toRadix b n = (if n < b \<or> b < 2 then [digit_char n] else toRadix b (n div b) @ [digit_char (n mod b)])"
  by pat_completeness auto
termination
  by (relation "measure (\<lambda>(b, n). n)") auto

declare toRadix.simps [simp del]

function decimal :: "int \<Rightarrow> string" where
  "decimal n = (if n < 10 then [digit_char (nat n)]
                else decimal (n div 10) @ [digit_char (nat (n mod 10))])"
  by pat_completeness auto
termination
  by (relation "measure nat") auto

declare decimal.simps [simp del]

text \<open>
  \<^verbatim>\<open>Number.prototype.toString()\<close>. Below \<open>2^53\<close> every integer is a double of its own and
  its digits are written. From there on the host writes the decimal \<open>d\<close> with the fewest
  significant digits among those that read back as the same double, the closest to the
  value if several have as few, and of these the one with the even last digit:
  \<^term>\<open>pick v j\<close> looks for it among the multiples of \<open>10^j\<close>, which are the two around
  \<open>v\<close>, and \<^term>\<open>shortest v\<close> takes the largest \<open>j\<close> that has one. A decimal of up to 21
  digits is written in full, a longer one with an exponent.
\<close>

definition valid_digits :: "int \<Rightarrow> int \<Rightarrow> bool" where
  "valid_digits v d = (0 < d \<and> dbl d = Num v)"

definition pick :: "int \<Rightarrow> nat \<Rightarrow> int option" where
  "pick v j =
     (let p = 10 ^ j; lo = (v div p) * p; hi = (v div p + 1) * p
      in if valid_digits v lo \<and> valid_digits v hi
         then (if v - lo < hi - v then Some lo
               else if hi - v < v - lo then Some hi
               else if even (v div p) then Some lo else Some hi)
         else if valid_digits v lo then Some lo
         else if valid_digits v hi then Some hi
         else None)"

fun first_pick :: "int \<Rightarrow> nat list \<Rightarrow> int" where
  "first_pick v [] = v"
| "first_pick v (j # js) = (case pick v j of Some d \<Rightarrow> d | None \<Rightarrow> first_pick v js)"

definition shortest :: "int \<Rightarrow> int" where
  "shortest v = first_pick v (rev [0..<Suc (length (decimal v))])"

definition exponent_form :: "int \<Rightarrow> string" where
  "exponent_form d =
     (let ds = decimal d;
          sig = rev (dropWhile (\<lambda>c. c = CHR ''0'') (rev ds));
          e = ''e+'' @ decimal (int (length ds) - 1)
      in case sig of
           [] \<Rightarrow> ds
         | [c] \<Rightarrow> c # e
         | c # cs \<Rightarrow> c # CHR ''.'' # cs @ e)"

definition nat_toString :: "int \<Rightarrow> string" where
  "nat_toString v =
     (if v < 2 ^ 53 then decimal v
      else let d = shortest v
           in if length (decimal d) \<le> 21 then decimal d else exponent_form d)"

fun number_toString :: "number \<Rightarrow> string" where
  "number_toString NaN = ''NaN''"
| "number_toString PosInf = ''Infinity''"
| "number_toString NegInf = ''-Infinity''"
| "number_toString (Num i) =
     (if i < 0 then CHR ''-'' # nat_toString (- i) else nat_toString i)"

text \<open>\<^verbatim>\<open>parseInt(str, 10)\<close>: leading white space is skipped, one sign is accepted, the
  longest run of decimal digits is read, no digit at all gives \<^verbatim>\<open>NaN\<close>, and the integer
  read is rounded to a double. (The standard lets a host read the digits after the
  twentieth as zeros; the rounding of the full integer is what the engines do.)\<close>

definition isDigit :: "char \<Rightarrow> bool" where
  "isDigit c = (48 \<le> (of_char c :: nat) \<and> (of_char c :: nat) \<le> 57)"

definition digits_value :: "string \<Rightarrow> int" where
  "digits_value ds = foldl (\<lambda>a c. 10 * a + (int (of_char c) - 48)) 0 ds"

definition parseInt10 :: "string \<Rightarrow> number" where
  "parseInt10 str =
     (let s = dropWhile isWhiteSpace str;
          neg = (case s of [] \<Rightarrow> False | c # _ \<Rightarrow> c = CHR ''-'');
          r = (case s of [] \<Rightarrow> [] | c # cs \<Rightarrow> if c = CHR ''-'' \<or> c = CHR ''+'' then cs else s);
          ds = takeWhile isDigit r
      in if ds = [] then NaN
         else dbl (if neg then - digits_value ds else digits_value ds))"

text \<open>\<^verbatim>\<open>generateId()\<close> (lines 50-52) joins at most 13 characters of a random fraction
  written in base 36 and the clock in base 36. The two readings of the environment are
  its arguments: \<open>rnd\<close> is \<^verbatim>\<open>Math.random().toString(36).substring(2, 15)\<close> and \<open>now\<close> is
  \<^verbatim>\<open>Date.now()\<close>.\<close>

definition generateId :: "string \<times> nat \<Rightarrow> string" where
  "generateId seed = fst seed @ toRadix 36 (snd seed)"

section \<open>Classification heuristic\<close>

text \<open>Lines 560-569 of \<^verbatim>\<open>sendMessage\<close>: the level and the format read off the topic.\<close>

definition classify_level :: "string \<Rightarrow> string" where
  "classify_level topic =
     (let lowerTopic = toLowerCase topic
      in if str_includes lowerTopic ''fundamental'' \<or> str_includes lowerTopic ''basico'' then ''Fundamental''
         else if str_includes lowerTopic ''medio'' \<or> str_includes lowerTopic ''ensino medio'' then ''Medio''
         else if str_includes lowerTopic ''tecnico'' \<or> str_includes lowerTopic ''tecnologo'' then ''Tecnico''
         else ''Faculdade'')"

definition classify_format :: "string \<Rightarrow> string" where
  "classify_format topic =
     (let lowerTopic = toLowerCase topic
      in if str_includes lowerTopic ''slide'' \<or> str_includes lowerTopic ''apresentacao''
            \<or> str_includes lowerTopic ''powerpoint''
         then ''slides'' else ''documento'')"

definition classify :: "string \<Rightarrow> string \<times> string" where
  "classify topic = (classify_level topic, classify_format topic)"

text \<open>The specification's wording: a keyword is contained in a text case-insensitively
  when some stretch of the text equals the keyword up to the case of its letters.\<close>

definition contains_ci :: "string \<Rightarrow> string \<Rightarrow> bool" where
  "contains_ci text kw = (\<exists>ps w ss. text = ps @ w @ ss \<and> toLowerCase w = toLowerCase kw)"

definition spec_level :: "string \<Rightarrow> string" where
  "spec_level topic =
     (if contains_ci topic ''fundamental'' \<or> contains_ci topic ''basico'' then ''Fundamental''
      else if contains_ci topic ''medio'' then ''Medio''
      else if contains_ci topic ''tecnico'' \<or> contains_ci topic ''tecnologo'' then ''Tecnico''
      else ''Faculdade'')"

definition spec_format :: "string \<Rightarrow> string" where
  "spec_format topic =
     (if contains_ci topic ''slide'' \<or> contains_ci topic ''apresentacao''
         \<or> contains_ci topic ''powerpoint''
      then ''slides'' else ''documento'')"

section \<open>Data model\<close>

text \<open>Lines 24-47: the constants and the two interfaces. A message's optional
  \<^verbatim>\<open>artifactFiles\<close> is the list of the \<^verbatim>\<open>file_url\<close>s, \<^term>\<open>None\<close> when undefined.\<close>

definition AGENT_ID :: string where
  "AGENT_ID = ''6998de3ee5ae4890f6e2bfa0''"

definition POINTS_PER_GENERATION :: int where
  "POINTS_PER_GENERATION = 75"

definition INITIAL_POINTS :: int where
  "INITIAL_POINTS = 250"

datatype role = User | Assistant

record ChatMessage =
  msg_id :: string
  msg_role :: role
  msg_content :: string
  msg_timestamp :: string
  msg_artifactFiles :: "string list option"

record HistoryEntry =
  h_id :: string
  h_topic :: string
  h_level :: string
  h_format :: string
  h_pageCount :: int
  h_content :: string
  h_date :: string
  h_pointCost :: int
  h_messages :: "ChatMessage list"

text \<open>
  What \<^verbatim>\<open>sendMessage\<close> reads of the value that \<^verbatim>\<open>callAIAgent\<close> resolves to, one field for
  each expression of lines 538-542 and 587: \<^verbatim>\<open>result.success\<close>,
  \<^verbatim>\<open>result?.response?.result?.response\<close>, the value of \<^verbatim>\<open>extractText(result.response)\<close>
  (\<^verbatim>\<open>extractText\<close> is imported from a module outside this file), the
  \<^verbatim>\<open>module_outputs.artifact_files\<close> when they are an array, \<^verbatim>\<open>result?.error\<close> and
  \<^verbatim>\<open>result?.response?.message\<close>. The call either resolves to such a value or rejects.
\<close>

record agent_result =
  r_success :: bool
  r_response_text :: "string option"
  r_extracted :: string
  r_artifact_files :: "string list option"
  r_error :: "string option"
  r_response_message :: "string option"

datatype outcome = Resolved agent_result | Rejected

text \<open>
  One invocation of \<^verbatim>\<open>callAIAgent\<close> that has not settled yet, with what the suspended
  \<^verbatim>\<open>sendMessage\<close> holds for its continuation: \<^verbatim>\<open>trimmed\<close>, the \<^verbatim>\<open>messages\<close> the callback
  was created with, \<^verbatim>\<open>userMessage\<close>, and the context passed to the call.
\<close>

record call =
  c_trimmed :: string
  c_messages :: "ChatMessage list"
  c_userMessage :: ChatMessage
  c_user_id :: string
  c_session_id :: string

text \<open>
  \<^verbatim>\<open>localStorage\<close> is a list of key and value pairs; where it is not available
  (\<^term>\<open>None\<close> below) every access throws. \<^verbatim>\<open>JSON.stringify\<close> and \<^verbatim>\<open>JSON.parse\<close> belong to
  the host: they are parameters, \<^verbatim>\<open>JSON.parse\<close> giving a syntax error, a value that is
  not an array, or an array of entries.
\<close>

type_synonym storage = "(string \<times> string) list"

definition getItem :: "string \<Rightarrow> storage \<Rightarrow> string option" where
  "getItem k st = map_of st k"

definition setItem :: "string \<Rightarrow> string \<Rightarrow> storage \<Rightarrow> storage" where
  "setItem k v st = AList.update k v st"

datatype parsed = SyntaxError | NotArray | IsArray "HistoryEntry list"

record json =
  JSON_stringify :: "HistoryEntry list \<Rightarrow> string"
  JSON_parse :: "string \<Rightarrow> parsed"

text \<open>
  What a render hands to the callbacks and effects it creates: the values of the state
  variables that \<^verbatim>\<open>sendMessage\<close> (dependency list of line 597) and the two writing effects
  (lines 464-475) read. They keep these values until the next render, whatever the state
  has become in between.
\<close>

record closure =
  cl_inputValue :: string
  cl_isGenerating :: bool
  cl_points :: number
  cl_userId :: string
  cl_sessionId :: string
  cl_messages :: "ChatMessage list"
  cl_history :: "HistoryEntry list"

text \<open>
  The state of \<^verbatim>\<open>Page\<close> (lines 393-426) that the session, the ledger and the archive
  use, the storage, the calls in flight, and what the latest render has read. The fields
  that only steer the layout (\<^verbatim>\<open>activeScreen\<close>, \<^verbatim>\<open>sidebarCollapsed\<close>, \<^verbatim>\<open>mobileMenuOpen\<close>,
  \<^verbatim>\<open>expandedHistoryId\<close>, \<^verbatim>\<open>purchaseSuccess\<close>) and the timers that clear a notice are left
  out.
\<close>

record page =
  points :: number
  messages :: "ChatMessage list"
  inputValue :: string
  isGenerating :: bool
  chatError :: string
  chatSuccess :: string
  userId :: string
  sessionId :: string
  history :: "HistoryEntry list"
  showBuyModal :: bool
  activeAgentId :: "string option"
  localStorage :: "storage option"
  inflight :: "call list"
  rendered :: closure

text \<open>What a render of a state reads, and the render itself.\<close>

definition closure_of :: "page \<Rightarrow> closure" where
  "closure_of s =
     \<lparr>cl_inputValue = inputValue s, cl_isGenerating = isGenerating s, cl_points = points s,
      cl_userId = userId s, cl_sessionId = sessionId s, cl_messages = messages s,
      cl_history = history s\<rparr>"

definition render :: "page \<Rightarrow> page" where
  "render s = s\<lparr>rendered := closure_of s\<rparr>"

text \<open>The page as first rendered, with the initial values of lines 393-426.\<close>

definition initial_page :: "storage option \<Rightarrow> page" where
  "initial_page st =
     \<lparr>points = Num INITIAL_POINTS, messages = [], inputValue = [], isGenerating = False,
      chatError = [], chatSuccess = [], userId = [], sessionId = [], history = [],
      showBuyModal = False, activeAgentId = None, localStorage = st, inflight = [],
      rendered = \<lparr>cl_inputValue = [], cl_isGenerating = False, cl_points = Num INITIAL_POINTS,
                   cl_userId = [], cl_sessionId = [], cl_messages = [], cl_history = []\<rparr>\<rparr>"

section \<open>Persistence\<close>

text \<open>Lines 433-461, the effect that runs once on startup. An exception anywhere in the
  \<^verbatim>\<open>try\<close> block ends it; the state updates requested before stay. A stored identifier
  that is absent or empty is replaced by a generated one, which is stored.\<close>

definition init_effect :: "json \<Rightarrow> string \<times> nat \<Rightarrow> string \<times> nat \<Rightarrow> page \<Rightarrow> page" where
  "init_effect js seedU seedS s =
     (case localStorage s of
        None \<Rightarrow> s
      | Some st \<Rightarrow>
          let s1 = (case getItem ''eduia_points'' st of
                      None \<Rightarrow> s
                    | Some storedPoints \<Rightarrow> s\<lparr>points := parseInt10 storedPoints\<rparr>);
              parsed = (case getItem ''eduia_history'' st of
                          None \<Rightarrow> NotArray
                        | Some storedHistory \<Rightarrow>
                            if storedHistory = [] then NotArray else JSON_parse js storedHistory)
          in case parsed of
               SyntaxError \<Rightarrow> s1
             | _ \<Rightarrow>
               let s2 = (case parsed of IsArray h \<Rightarrow> s1\<lparr>history := h\<rparr> | _ \<Rightarrow> s1);
                   storedUserId = (case getItem ''eduia_user_id'' st of
                                     None \<Rightarrow> None
                                   | Some u \<Rightarrow> if u = [] then None else Some u);
                   newUserId = generateId seedU;
                   st1 = (case storedUserId of
                            None \<Rightarrow> setItem ''eduia_user_id'' newUserId st
                          | Some _ \<Rightarrow> st);
                   storedSessionId = (case getItem ''eduia_session_id'' st1 of
                                        None \<Rightarrow> None
                                      | Some i \<Rightarrow> if i = [] then None else Some i);
                   newSessionId = generateId seedS;
                   st2 = (case storedSessionId of
                            None \<Rightarrow> setItem ''eduia_session_id'' newSessionId st1
                          | Some _ \<Rightarrow> st1)
               in s2\<lparr>userId := (case storedUserId of None \<Rightarrow> newUserId | Some u \<Rightarrow> u),
                     sessionId := (case storedSessionId of None \<Rightarrow> newSessionId | Some i \<Rightarrow> i),
                     localStorage := Some st2\<rparr>)"

text \<open>Lines 464-475, the two effects that write the balance and the archive: each
  writes the value that the render which created it has read.\<close>

definition persist_points :: "page \<Rightarrow> page" where
  "persist_points s =
     (case localStorage s of
        None \<Rightarrow> s
      | Some st \<Rightarrow>
          s\<lparr>localStorage :=
              Some (setItem ''eduia_points'' (number_toString (cl_points (rendered s))) st)\<rparr>)"

definition persist_history :: "json \<Rightarrow> page \<Rightarrow> page" where
  "persist_history js s =
     (case localStorage s of
        None \<Rightarrow> s
      | Some st \<Rightarrow>
          s\<lparr>localStorage :=
              Some (setItem ''eduia_history'' (JSON_stringify js (cl_history (rendered s))) st)\<rparr>)"

text \<open>Loading the page again: the component state starts afresh, the storage stays,
  the continuations of the old page are gone, the first render reads the initial values,
  and the startup effect runs. What the startup effect sets is in the state; a render has
  yet to read it.\<close>

definition reload :: "json \<Rightarrow> string \<times> nat \<Rightarrow> string \<times> nat \<Rightarrow> page \<Rightarrow> page" where
  "reload js seedU seedS s = init_effect js seedU seedS (initial_page (localStorage s))"

section \<open>Session, ledger and archive\<close>

text \<open>Lines 494-505.\<close>

definition startNewWork :: "string \<times> nat \<Rightarrow> page \<Rightarrow> page" where
  "startNewWork seed s =
     (let newSessionId = generateId seed
      in s\<lparr>sessionId := newSessionId,
           localStorage := map_option (setItem ''eduia_session_id'' newSessionId) (localStorage s),
           messages := [], chatError := [], chatSuccess := []\<rparr>)"

text \<open>Lines 508-536: \<^verbatim>\<open>sendMessage\<close> up to its \<^verbatim>\<open>await\<close>, as the callback that a render
  with the closure \<open>c\<close> has created, run on the state \<open>s\<close>. What the callback reads
  (\<^verbatim>\<open>inputValue\<close>, \<^verbatim>\<open>isGenerating\<close>, \<^verbatim>\<open>points\<close>, \<^verbatim>\<open>messages\<close>, \<^verbatim>\<open>userId\<close>, \<^verbatim>\<open>sessionId\<close>)
  comes from \<open>c\<close>; what it sets goes to \<open>s\<close>, and \<^verbatim>\<open>setMessages(prev => ...)\<close> appends to
  the messages of \<open>s\<close>. Invoking \<^verbatim>\<open>callAIAgent\<close> adds the call to the calls in flight.
  \<open>seed\<close> feeds \<^verbatim>\<open>generateId\<close> and \<open>ts\<close> is the value of \<^verbatim>\<open>getTimestamp()\<close>.\<close>

definition sendMessage_in :: "string \<times> nat \<Rightarrow> string \<Rightarrow> closure \<Rightarrow> page \<Rightarrow> page" where
  "sendMessage_in seed ts c s =
     (let trimmed = trim (cl_inputValue c)
      in if trimmed = [] \<or> cl_isGenerating c then s
         else if num_less (cl_points c) (Num POINTS_PER_GENERATION) then s\<lparr>showBuyModal := True\<rparr>
         else
           let userMessage = \<lparr>msg_id = generateId seed, msg_role = User, msg_content = trimmed,
                              msg_timestamp = ts, msg_artifactFiles = None\<rparr>
           in s\<lparr>chatError := [], chatSuccess := [],
                messages := messages s @ [userMessage],
                inputValue := [], isGenerating := True, activeAgentId := Some AGENT_ID,
                inflight := inflight s @
                  [\<lparr>c_trimmed = trimmed, c_messages = cl_messages c, c_userMessage = userMessage,
                    c_user_id = cl_userId c, c_session_id = cl_sessionId c\<rparr>]\<rparr>)"

text \<open>\<^verbatim>\<open>sendMessage\<close> as the callback of a render of the state it runs on: the submit
  of a page that shows its current state.\<close>

definition sendMessage :: "string \<times> nat \<Rightarrow> string \<Rightarrow> page \<Rightarrow> page" where
  "sendMessage seed ts s = sendMessage_in seed ts (closure_of s) s"

text \<open>Lines 539-550: the text of the answer and the assistant's message.\<close>

definition result_text :: "agent_result \<Rightarrow> string" where
  "result_text result = or_else (r_response_text result) (or_else (Some (r_extracted result)) [])"

definition assistant_message :: "string \<times> nat \<Rightarrow> string \<Rightarrow> agent_result \<Rightarrow> ChatMessage" where
  "assistant_message seed ts result =
     (let artifactFiles = (case r_artifact_files result of Some fs \<Rightarrow> fs | None \<Rightarrow> [])
      in \<lparr>msg_id = generateId seed, msg_role = Assistant, msg_content = result_text result,
          msg_timestamp = ts,
          msg_artifactFiles = (if length artifactFiles > 0 then Some artifactFiles else None)\<rparr>)"

text \<open>Lines 556-558: the topic, from the first user message of the captured session.\<close>

definition call_topic :: "call \<Rightarrow> string" where
  "call_topic c =
     (let firstUserMsg = find (\<lambda>m. msg_role m = User) (c_messages c)
      in or_else (map_option msg_content firstUserMsg) (c_trimmed c))"

text \<open>Lines 560-582: the archive entry.\<close>

definition new_entry ::
  "string \<times> nat \<Rightarrow> string \<Rightarrow> call \<Rightarrow> agent_result \<Rightarrow> ChatMessage \<Rightarrow> HistoryEntry" where
  "new_entry seed date c result assistantMessage =
     (let topic = call_topic c
      in \<lparr>h_id = generateId seed,
          h_topic = (if length topic > 80 then take 80 topic @ ''...'' else topic),
          h_level = classify_level topic,
          h_format = classify_format topic,
          h_pageCount = 0,
          h_content = result_text result,
          h_date = date,
          h_pointCost = POINTS_PER_GENERATION,
          h_messages = c_messages c @ [c_userMessage c, assistantMessage]\<rparr>)"

text \<open>Lines 538-596: \<^verbatim>\<open>sendMessage\<close> after its \<^verbatim>\<open>await\<close>, on the state of that moment
  (every update there is a functional one or a constant). \<open>seedA\<close> and \<open>ts\<close> serve the
  assistant's message, \<open>seedE\<close> and \<open>date\<close> (\<^verbatim>\<open>getDateString()\<close>) the entry.\<close>

definition sendMessage_settled ::
  "string \<times> nat \<Rightarrow> string \<Rightarrow> string \<times> nat \<Rightarrow> string \<Rightarrow> call \<Rightarrow> outcome \<Rightarrow> page \<Rightarrow> page" where
  "sendMessage_settled seedA ts seedE date c out s =
     (let s1 =
        (case out of
           Rejected \<Rightarrow>
             s\<lparr>chatError := ''Erro de conexao. Verifique sua internet e tente novamente.''\<rparr>
         | Resolved result \<Rightarrow>
             if r_success result then
               let assistantMessage = assistant_message seedA ts result;
                   entry = new_entry seedE date c result assistantMessage
               in s\<lparr>messages := messages s @ [assistantMessage],
                    points := Math_max (Num 0) (num_minus (points s) (Num POINTS_PER_GENERATION)),
                    history := entry # history s,
                    chatSuccess := ''Conteudo gerado com sucesso!''\<rparr>
             else
               s\<lparr>chatError := or_else (r_error result)
                    (or_else (r_response_message result)
                       ''Erro ao gerar conteudo. Tente novamente.'')\<rparr>)
      in s1\<lparr>isGenerating := False, activeAgentId := None\<rparr>)"

text \<open>Lines 613-618, and the three plans that call it (lines 1114, 1122 and 1130).\<close>

definition handleBuyPoints :: "int \<Rightarrow> page \<Rightarrow> page" where
  "handleBuyPoints amount s =
     s\<lparr>points := num_plus (points s) (Num amount), showBuyModal := False\<rparr>"

datatype plan = Plan1000 | Plan2500 | Plan4000

fun plan_points :: "plan \<Rightarrow> int" where
  "plan_points Plan1000 = 1000"
| "plan_points Plan2500 = 2500"
| "plan_points Plan4000 = 4000"

text \<open>Lines 637-642, over the archive on display and the three filter fields.\<close>

definition filteredHistory ::
  "string \<Rightarrow> string \<Rightarrow> string \<Rightarrow> HistoryEntry list \<Rightarrow> HistoryEntry list" where
  "filteredHistory historySearch historyLevelFilter historyFormatFilter displayHistory =
     filter (\<lambda>entry.
        let matchesSearch = (historySearch = []
              \<or> str_includes (toLowerCase (h_topic entry)) (toLowerCase historySearch));
            matchesLevel = (historyLevelFilter = ''all'' \<or> h_level entry = historyLevelFilter);
            matchesFormat = (historyFormatFilter = ''all'' \<or> h_format entry = historyFormatFilter)
        in matchesSearch \<and> matchesLevel \<and> matchesFormat) displayHistory"

text \<open>The specification's wording of the filter: the three conditions, conjoined.\<close>

definition spec_matches :: "string \<Rightarrow> string \<Rightarrow> string \<Rightarrow> HistoryEntry \<Rightarrow> bool" where
  "spec_matches searchText levelFilter formatFilter e =
     (contains_ci (h_topic e) searchText
      \<and> (levelFilter = ''all'' \<or> h_level e = levelFilter)
      \<and> (formatFilter = ''all'' \<or> h_format e = formatFilter))"

section \<open>Events\<close>

text \<open>
  What can happen to the page, one event at a time (the host runs one handler to its
  end or to its \<^verbatim>\<open>await\<close> before the next): typing into the input, a render, a submit
  through the callback of the latest render, the settling of the call in flight at a
  position, a purchase, a new work session, the two writing effects of the latest render,
  and loading the page again. A page driven through its controls renders between two
  events; a run without a render in between is a callback invoked again before the page
  has rendered. The handlers that change only a notice or open and close the purchase
  dialog are left out.
\<close>

datatype event =
    Type string
  | Render
  | Submit "string \<times> nat" string
  | Settle nat outcome "string \<times> nat" string "string \<times> nat" string
  | Buy plan
  | NewWork "string \<times> nat"
  | PersistPoints
  | PersistHistory
  | Reload "string \<times> nat" "string \<times> nat"

fun step :: "json \<Rightarrow> event \<Rightarrow> page \<Rightarrow> page" where
  "step js (Type v) s = s\<lparr>inputValue := v\<rparr>"
| "step js Render s = render s"
| "step js (Submit seed ts) s = sendMessage_in seed ts (rendered s) s"
| "step js (Settle i out seedA ts seedE date) s =
     (if i < length (inflight s)
      then sendMessage_settled seedA ts seedE date (inflight s ! i) out
             (s\<lparr>inflight := take i (inflight s) @ drop (Suc i) (inflight s)\<rparr>)
      else s)"
| "step js (Buy p) s = handleBuyPoints (plan_points p) s"
| "step js (NewWork seed) s = startNewWork seed s"
| "step js PersistPoints s = persist_points s"
| "step js PersistHistory s = persist_history js s"
| "step js (Reload seedU seedS) s = reload js seedU seedS s"

fun run :: "json \<Rightarrow> event list \<Rightarrow> page \<Rightarrow> page" where
  "run js [] s = s"
| "run js (e # es) s = run js es (step js e s)"

text \<open>The entry that an event archives, if it archives one: a call in flight settles
  with success.\<close>

fun archived :: "event \<Rightarrow> page \<Rightarrow> HistoryEntry list" where
  "archived (Settle i (Resolved result) seedA ts seedE date) s =
     (if i < length (inflight s) \<and> r_success result
      then [new_entry seedE date (inflight s ! i) result (assistant_message seedA ts result)]
      else [])"
| "archived _ s = []"

fun archived_all :: "json \<Rightarrow> event list \<Rightarrow> page \<Rightarrow> HistoryEntry list" where
  "archived_all js [] s = []"
| "archived_all js (e # es) s = archived e s @ archived_all js es (step js e s)"

fun is_reload :: "event \<Rightarrow> bool" where
  "is_reload (Reload _ _) = True"
| "is_reload _ = False"

section \<open>Predicates used in the statements\<close>

text \<open>An outcome is a failure when the call rejects or resolves without success.\<close>

definition failed :: "outcome \<Rightarrow> bool" where
  "failed out = (case out of Rejected \<Rightarrow> True | Resolved result \<Rightarrow> \<not> r_success result)"

text \<open>A storage that holds no balance (none was ever written, or the storage is not
  available); a balance that is an integer from 0 to \<open>2^100\<close>; and the state of the ledger
  that every event keeps: such a balance in the state, in what the latest render has
  read, and in what the storage reads as.\<close>

definition no_stored_balance :: "storage option \<Rightarrow> bool" where
  "no_stored_balance st =
     (case st of None \<Rightarrow> True | Some kv \<Rightarrow> getItem ''eduia_points'' kv = None)"

definition in_range :: "number \<Rightarrow> bool" where
  "in_range x = (case x of Num n \<Rightarrow> 0 \<le> n \<and> n \<le> 2 ^ 100 | _ \<Rightarrow> False)"

definition ledger_inv :: "page \<Rightarrow> bool" where
  "ledger_inv s =
     (in_range (points s) \<and> in_range (cl_points (rendered s))
      \<and> (case localStorage s of
            None \<Rightarrow> True
          | Some kv \<Rightarrow> (case getItem ''eduia_points'' kv of
                         None \<Rightarrow> True
                       | Some v \<Rightarrow> in_range (parseInt10 v))))"




text \<open>The storage is available and holds the page's user identifier, which is not
  empty; and the archive found in a storage, if any, does not make \<^verbatim>\<open>JSON.parse\<close> throw.\<close>

definition identity_inv :: "page \<Rightarrow> bool" where
  "identity_inv s =
     (case localStorage s of
        None \<Rightarrow> False
      | Some st \<Rightarrow> getItem ''eduia_user_id'' st = Some (userId s) \<and> userId s \<noteq> [])"

definition readable :: "json \<Rightarrow> storage \<Rightarrow> bool" where
  "readable js st =
     (case getItem ''eduia_history'' st of
        None \<Rightarrow> True
      | Some storedHistory \<Rightarrow> storedHistory = [] \<or> JSON_parse js storedHistory \<noteq> SyntaxError)"




section \<open>Concrete pages for the examples\<close>

text \<open>A successful answer with a given text; an archive of one entry and a stand-in for
  the host's JSON functions that writes and reads back that archive and the empty one;
  pages and runs of events that the examples evaluate.\<close>

definition ok_result :: "string \<Rightarrow> agent_result" where
  "ok_result t = \<lparr>r_success = True, r_response_text = Some t, r_extracted = [],
     r_artifact_files = None, r_error = None, r_response_message = None\<rparr>"

definition demo_archive :: "HistoryEntry list" where
  "demo_archive =
     [\<lparr>h_id = ''c3'',
       h_topic = ''Apresentacao de slides sobre fotossintese para fundamental'',
       h_level = ''Fundamental'', h_format = ''slides'', h_pageCount = 0,
       h_content = ''texto'', h_date = ''01/02/2026'', h_pointCost = 75,
       h_messages =
         [\<lparr>msg_id = ''a1'', msg_role = User,
            msg_content = ''Apresentacao de slides sobre fotossintese para fundamental'',
            msg_timestamp = ''10:00'', msg_artifactFiles = None\<rparr>,
          \<lparr>msg_id = ''b2'', msg_role = Assistant, msg_content = ''texto'',
            msg_timestamp = ''10:01'', msg_artifactFiles = None\<rparr>]\<rparr>]"

definition demo_json :: json where
  "demo_json =
     \<lparr>JSON_stringify = (\<lambda>h. if h = [] then ''[]'' else ''[1]''),
      JSON_parse = (\<lambda>str. if str = ''[]'' then IsArray []
                          else if str = ''[1]'' then IsArray demo_archive else SyntaxError)\<rparr>"

definition poor_page :: page where
  "poor_page = (initial_page None)\<lparr>points := Num 30, inputValue := ''  oi  ''\<rparr>"

definition blank_page :: page where
  "blank_page = (initial_page None)\<lparr>points := Num 30, inputValue := ''   ''\<rparr>"

definition typed_page :: page where
  "typed_page = (initial_page None)\<lparr>inputValue := '' tema ''\<rparr>"

definition sending_events :: "event list" where
  "sending_events = [Type ''tema'', Render, Submit (''a'', 1) ''10:00'', Render, Type ''outro'']"

definition double_submit :: "event list" where
  "double_submit = [Type ''tema'', Render, Submit (''a'', 1) ''10:00'', Submit (''b'', 2) ''10:00'']"

definition two_rounds :: "event list" where
  "two_rounds =
     [Type ''Trabalho tecnico sobre redes'', Render, Submit (''a'', 1) ''10:00'', Render,
      Settle 0 (Resolved (ok_result ''primeiro'')) (''b'', 2) ''10:01'' (''c'', 3) ''01/02/2026'',
      Render, Type ''mais uma pagina'', Render, Submit (''d'', 4) ''10:02'', Render,
      Settle 0 (Resolved (ok_result ''segundo'')) (''e'', 5) ''10:03'' (''f'', 6) ''01/02/2026'',
      Render]"

definition stored_events :: "event list" where
  "stored_events =
     [Reload (''u'', 7) (''s'', 8), Render, Buy Plan1000, Render,
      Type '' Apresentacao de slides sobre fotossintese para fundamental '', Render,
      Submit (''a'', 1) ''10:00'', Render,
      Settle 0 (Resolved (ok_result ''texto'')) (''b'', 2) ''10:01'' (''c'', 3) ''01/02/2026'',
      Render]"



definition negative_storage :: "storage option" where
  "negative_storage = Some [(''eduia_points'', ''-5'')]"

definition big_storage :: "storage option" where
  "big_storage = Some [(''eduia_points'', ''18014398509481984'')]"


definition rich_page :: page where
  "rich_page =
     run demo_json [Reload (''u'', 7) (''s'', 8), Render, Type ''tema'', Render,
                    Submit (''a'', 1) ''10:00'', Render] (initial_page big_storage)"


section \<open>Facts about the string operations\<close>

lemma str_includes_iff: "str_includes s sub \<longleftrightarrow> (\<exists>ps ss. s = ps @ sub @ ss)"
proof (induction s)
  case Nil
  then show ?case by auto
next
  case (Cons c cs)
  show ?case
  proof
    assume "str_includes (c # cs) sub"
    then consider "prefix sub (c # cs)" | "str_includes cs sub" by auto
    then show "\<exists>ps ss. c # cs = ps @ sub @ ss"
    proof cases
      case 1
      then obtain ss where "c # cs = sub @ ss" by (auto simp: prefix_def)
      then have "c # cs = [] @ sub @ ss" by simp
      then show ?thesis by blast
    next
      case 2
      with Cons.IH obtain ps ss where "cs = ps @ sub @ ss" by blast
      then have "c # cs = (c # ps) @ sub @ ss" by simp
      then show ?thesis by blast
    qed
  next
    assume "\<exists>ps ss. c # cs = ps @ sub @ ss"
    then obtain ps ss where eq: "c # cs = ps @ sub @ ss" by blast
    show "str_includes (c # cs) sub"
    proof (cases ps)
      case Nil
      with eq have "prefix sub (c # cs)" by (simp add: prefix_def)
      then show ?thesis by simp
    next
      case (Cons p ps')
      with eq have "cs = ps' @ sub @ ss" by simp
      with Cons.IH have "str_includes cs sub" by blast
      then show ?thesis by simp
    qed
  qed
qed

lemma str_includes_lower_iff:
  "str_includes (toLowerCase text) (toLowerCase kw) \<longleftrightarrow> contains_ci text kw"
proof
  assume "str_includes (toLowerCase text) (toLowerCase kw)"
  then obtain ps ss where "map lower_char text = ps @ map lower_char kw @ ss"
    by (auto simp: str_includes_iff toLowerCase_def)
  then obtain p r where t1: "text = p @ r" and r: "map lower_char r = map lower_char kw @ ss"
    by (metis map_eq_append_conv)
  from r obtain w s where "r = w @ s" and "map lower_char w = map lower_char kw"
    by (metis map_eq_append_conv)
  with t1 show "contains_ci text kw"
    by (auto simp: contains_ci_def toLowerCase_def)
next
  assume "contains_ci text kw"
  then obtain ps w ss where "text = ps @ w @ ss" and "toLowerCase w = toLowerCase kw"
    by (auto simp: contains_ci_def)
  then have "toLowerCase text = toLowerCase ps @ toLowerCase kw @ toLowerCase ss"
    by (simp add: toLowerCase_def)
  then show "str_includes (toLowerCase text) (toLowerCase kw)"
    by (auto simp: str_includes_iff)
qed

lemma str_includes_empty: "str_includes s []"
  by (cases s) simp_all

lemma str_includes_trans: "str_includes a b \<Longrightarrow> str_includes b c \<Longrightarrow> str_includes a c"
proof -
  assume "str_includes a b" and "str_includes b c"
  then obtain p s p' s' where "a = p @ b @ s" and "b = p' @ c @ s'"
    by (auto simp: str_includes_iff)
  then have "a = (p @ p') @ c @ (s' @ s)" by simp
  then show ?thesis unfolding str_includes_iff by blast
qed

section \<open>Classification: the claims\<close>

text \<open>
  C6. Classification is a function of the topic text alone, and it is the
  case-insensitive substring test of the specification: the level is Fundamental if the
  text contains "fundamental" or "basico", else Medio if it contains "medio", else Tecnico if
  it contains "tecnico" or "tecnologo", else Faculdade; the format is slides if and only if
  the text contains "slide", "apresentacao" or "powerpoint", else documento. The two
  examples of the specification classify as it says.
\<close>

theorem classify_is_spec:
  "classify topic = (spec_level topic, spec_format topic)
   \<and> classify ''Trabalho tecnico sobre redes'' = (''Tecnico'', ''documento'')
   \<and> classify ''Apresentacao de slides sobre fotossintese para fundamental''
       = (''Fundamental'', ''slides'')"
proof -
  have kw: "\<And>kw. toLowerCase kw = kw \<Longrightarrow>
              str_includes (toLowerCase topic) kw = contains_ci topic kw"
    using str_includes_lower_iff by metis
  have lows: "toLowerCase ''fundamental'' = ''fundamental''" "toLowerCase ''basico'' = ''basico''"
    "toLowerCase ''medio'' = ''medio''" "toLowerCase ''tecnico'' = ''tecnico''"
    "toLowerCase ''tecnologo'' = ''tecnologo''" "toLowerCase ''slide'' = ''slide''"
    "toLowerCase ''apresentacao'' = ''apresentacao''" "toLowerCase ''powerpoint'' = ''powerpoint''"
    by code_simp+
  have sub: "str_includes ''ensino medio'' ''medio''" by code_simp
  have em: "str_includes (toLowerCase topic) ''ensino medio'' \<Longrightarrow> str_includes (toLowerCase topic) ''medio''"
    using str_includes_trans [OF _ sub] .
  have lev: "classify_level topic = spec_level topic"
    unfolding classify_level_def spec_level_def Let_def
    using em by (auto simp: kw [OF lows(1)] kw [OF lows(2)] kw [OF lows(3)]
        kw [OF lows(4)] kw [OF lows(5)])
  have fmt: "classify_format topic = spec_format topic"
    unfolding classify_format_def spec_format_def Let_def
    by (simp only: kw [OF lows(6)] kw [OF lows(7)] kw [OF lows(8)])
  have e1: "classify ''Trabalho tecnico sobre redes'' = (''Tecnico'', ''documento'')"
    by code_simp
  have e2: "classify ''Apresentacao de slides sobre fotossintese para fundamental''
       = (''Fundamental'', ''slides'')"
    by code_simp
  show ?thesis using lev fmt e1 e2 by (simp add: classify_def)
qed

section \<open>Rounding to a double\<close>

lemma div_mult_le_int: "(0::int) < u \<Longrightarrow> n div u * u \<le> n"
  by (metis diff_ge_0_iff_ge minus_div_mult_eq_mod mod_int_pos_iff)

lemma div_less_int: "(0::int) < u \<Longrightarrow> n < a * u \<Longrightarrow> n div u < a"
proof (rule ccontr)
  assume u: "0 < u" and lt: "n < a * u" and "\<not> n div u < a"
  then have "a \<le> n div u" by simp
  then have "a * u \<le> n div u * u" using u by (simp add: mult_right_mono)
  also have "\<dots> \<le> n" using u by (rule div_mult_le_int)
  finally show False using lt by simp
qed

lemma bitlen_le: "n < 2 ^ k \<Longrightarrow> bitlen n \<le> k"
proof (induction k arbitrary: n)
  case 0
  then have "n \<le> 0" by simp
  then show ?case by (subst bitlen.simps) simp
next
  case (Suc k)
  show ?case
  proof (cases "n \<le> 0")
    case True
    then show ?thesis by (subst bitlen.simps) simp
  next
    case False
    from Suc.prems have "n div 2 < 2 ^ k" by simp
    then have "bitlen (n div 2) \<le> k" by (rule Suc.IH)
    with False show ?thesis by (subst bitlen.simps) simp
  qed
qed

lemma bitlen_gt: "0 \<le> n \<Longrightarrow> n < 2 ^ bitlen n"
proof (induction n rule: bitlen.induct)
  case (1 n)
  show ?case
  proof (cases "n \<le> 0")
    case True
    with "1.prems" show ?thesis by (subst bitlen.simps) simp
  next
    case False
    then have "n div 2 < 2 ^ bitlen (n div 2)" using "1.IH" by simp
    then have "n < 2 * 2 ^ bitlen (n div 2)" by linarith
    with False show ?thesis by (subst bitlen.simps) simp
  qed
qed

lemma bitlen_ge: "2 ^ k \<le> n \<Longrightarrow> k < bitlen n"
proof -
  assume a: "2 ^ k \<le> n"
  have "(0::int) < 2 ^ k" by simp
  with a have "0 \<le> n" by linarith
  then have "n < 2 ^ bitlen n" by (rule bitlen_gt)
  with a have "(2::int) ^ k < 2 ^ bitlen n" by linarith
  then show ?thesis by (rule power_less_imp_less_exp [rotated]) simp
qed

lemma round53_nonneg: "0 \<le> n \<Longrightarrow> 0 \<le> round53 n"
  by (simp add: round53_def Let_def pos_imp_zdiv_nonneg_iff)

lemma round53_le: 
  assumes "0 \<le> n"
  shows "round53 n \<le> 2 ^ bitlen n"
proof -
  let ?e = "bitlen n - 53"
  let ?u = "(2::int) ^ ?e"
  have u: "0 < ?u" by simp
  have split: "(2::int) ^ bitlen n = 2 ^ (bitlen n - ?e) * ?u"
    by (simp flip: power_add)
  have lt: "n < 2 ^ (bitlen n - ?e) * ?u" using bitlen_gt [OF assms] split by simp
  have "n div ?u < 2 ^ (bitlen n - ?e)"
    by (rule div_less_int [OF u lt])
  then have "n div ?u + 1 \<le> 2 ^ (bitlen n - ?e)" by simp
  then have "(n div ?u + 1) * ?u \<le> 2 ^ (bitlen n - ?e) * ?u"
    using u by (simp add: mult_right_mono)
  then have hi: "(n div ?u + 1) * ?u \<le> 2 ^ bitlen n"
    using split by simp
  have "n div ?u * ?u \<le> (n div ?u + 1) * ?u"
    using u by (simp add: mult_right_mono)
  with hi have lo: "n div ?u * ?u \<le> 2 ^ bitlen n" by linarith
  show ?thesis unfolding round53_def Let_def using lo hi by simp
qed

lemma round53_small: "0 \<le> n \<Longrightarrow> n < 2 ^ 53 \<Longrightarrow> round53 n = n"
proof -
  assume "0 \<le> n" and "n < 2 ^ 53"
  then have "bitlen n - 53 = 0" using bitlen_le [of n 53] by simp
  then show ?thesis by (simp add: round53_def)
qed

lemma dbl_safe: "\<bar>i\<bar> < 2 ^ 53 \<Longrightarrow> dbl i = Num i"
proof -
  assume a: "\<bar>i\<bar> < 2 ^ 53"
  then have r: "round53 \<bar>i\<bar> = \<bar>i\<bar>" by (simp add: round53_small)
  have "\<bar>i\<bar> < 2 ^ 1024" using a by simp
  then show ?thesis unfolding dbl_def r Let_def by auto
qed

lemma dbl_range:
  assumes "0 \<le> i" and "i < 2 ^ k" and "k \<le> 1023"
  shows "\<exists>m. dbl i = Num m \<and> 0 \<le> m \<and> m \<le> 2 ^ k"
proof -
  have "bitlen i \<le> k" using assms(2) by (rule bitlen_le)
  then have "(2::int) ^ bitlen i \<le> 2 ^ k" by (simp add: power_increasing)
  with round53_le [OF assms(1)] have le: "round53 i \<le> 2 ^ k" by linarith
  have "(2::int) ^ k < 2 ^ 1024"
    by (rule power_strict_increasing) (use assms(3) in simp_all)
  with le have "\<not> 2 ^ 1024 \<le> round53 i" by linarith
  then show ?thesis
    using assms(1) le round53_nonneg [OF assms(1)] unfolding dbl_def Let_def by simp
qed

lemma dbl_cap:
  assumes "2 ^ 100 \<le> x" and "x \<le> 2 ^ 100 + 4000"
  shows "dbl x = Num (2 ^ 100)"
proof -
  have pos: "0 \<le> x" using assms(1) by simp
  have "x < 2 ^ 101" using assms(2) by simp
  then have "bitlen x \<le> 101" by (rule bitlen_le)
  moreover have "100 < bitlen x" using assms(1) by (rule bitlen_ge)
  ultimately have b: "bitlen x = 101" by simp
  have q: "x div 2 ^ 48 = 2 ^ 52" using assms by simp
  have r: "x mod 2 ^ 48 = x - 2 ^ 100"
    using minus_div_mult_eq_mod [of x "2 ^ 48"] q by simp
  have "round53 x = 2 ^ 100"
    unfolding round53_def Let_def b using assms q r by simp
  then show ?thesis using pos by (simp add: dbl_def)
qed


section \<open>Writing and reading decimal digits\<close>

lemma decimal_small: "n < 10 \<Longrightarrow> decimal n = [digit_char (nat n)]"
  by (subst decimal.simps) simp

lemma decimal_big:
  "\<not> n < 10 \<Longrightarrow> decimal n = decimal (n div 10) @ [digit_char (nat (n mod 10))]"
  by (subst decimal.simps) simp

lemma decimal_ne: "decimal n \<noteq> []"
  by (cases "n < 10") (simp_all add: decimal_small decimal_big)

lemma of_char_digit: "d < 10 \<Longrightarrow> (of_char (digit_char d) :: nat) = 48 + d"
  by (simp add: digit_char_def)

lemma isDigit_digit_char: "d < 10 \<Longrightarrow> isDigit (digit_char d)"
  by (simp add: isDigit_def of_char_digit)

lemma decimal_digits: "0 \<le> n \<Longrightarrow> c \<in> set (decimal n) \<Longrightarrow> isDigit c"
proof (induction n arbitrary: c rule: decimal.induct)
  case (1 n)
  show ?case
  proof (cases "n < 10")
    case True
    with "1.prems" show ?thesis
      by (simp add: decimal_small isDigit_digit_char)
  next
    case False
    with "1.prems" have "c \<in> set (decimal (n div 10)) \<or> c = digit_char (nat (n mod 10))"
      by (auto simp: decimal_big)
    moreover have "nat (n mod 10) < 10" by simp
    moreover have "0 \<le> n div 10" using "1.prems"(1) by simp
    ultimately show ?thesis
      using "1.IH" False by (auto simp: isDigit_digit_char)
  qed
qed

lemma digits_value_snoc:
  "digits_value (ds @ [c]) = 10 * digits_value ds + (int (of_char c) - 48)"
  by (simp add: digits_value_def)

lemma digits_value_decimal: "0 \<le> n \<Longrightarrow> digits_value (decimal n) = n"
proof (induction n rule: decimal.induct)
  case (1 n)
  show ?case
  proof (cases "n < 10")
    case True
    with "1.prems" have "nat n < 10" by simp
    then have "int (of_char (digit_char (nat n))) = 48 + n"
      using "1.prems" by (simp add: of_char_digit)
    with True show ?thesis
      by (simp add: decimal_small digits_value_def)
  next
    case False
    have m: "nat (n mod 10) < 10" by simp
    have "digits_value (decimal n)
        = 10 * digits_value (decimal (n div 10)) + (int (of_char (digit_char (nat (n mod 10)))) - 48)"
      using False by (simp add: decimal_big digits_value_snoc)
    also have "\<dots> = 10 * (n div 10) + n mod 10"
      using "1.IH" "1.prems" False by (simp add: of_char_digit [OF m])
    finally show ?thesis by simp
  qed
qed

lemma decimal_lt: "0 \<le> n \<Longrightarrow> n < 10 ^ length (decimal n)"
proof (induction n rule: decimal.induct)
  case (1 n)
  show ?case
  proof (cases "n < 10")
    case True
    then show ?thesis by (simp add: decimal_small)
  next
    case False
    then have "n div 10 < 10 ^ length (decimal (n div 10))"
      using "1.IH" "1.prems" by simp
    then have "n < 10 * 10 ^ length (decimal (n div 10))" by linarith
    with False show ?thesis by (simp add: decimal_big)
  qed
qed


lemma decimal_nonzero: "0 < n \<Longrightarrow> \<exists>c \<in> set (decimal n). c \<noteq> CHR ''0''"
proof (induction n rule: decimal.induct)
  case (1 n)
  show ?case
  proof (cases "n < 10")
    case True
    with "1.prems" have "0 < nat n" "nat n < 10" by simp_all
    then have "(of_char (digit_char (nat n)) :: nat) \<noteq> 48" by (simp add: of_char_digit)
    then have "digit_char (nat n) \<noteq> CHR ''0''" by auto
    with True show ?thesis by (simp add: decimal_small)
  next
    case False
    then have "\<exists>c \<in> set (decimal (n div 10)). c \<noteq> CHR ''0''" using "1.IH" by simp
    with False show ?thesis by (auto simp: decimal_big)
  qed
qed

lemma isDigit_plain: "isDigit c \<Longrightarrow> \<not> isWhiteSpace c \<and> c \<noteq> CHR ''-'' \<and> c \<noteq> CHR ''+''"
  by (auto simp: isDigit_def isWhiteSpace_def Let_def)

lemma takeWhile_digits:
  assumes "\<forall>c \<in> set ds. isDigit c" and "rest = [] \<or> \<not> isDigit (hd rest)"
  shows "takeWhile isDigit (ds @ rest) = ds"
proof -
  have "takeWhile isDigit rest = []" using assms(2) by (cases rest) auto
  then show ?thesis using assms(1) by (simp add: takeWhile_append2)
qed

lemma parseInt10_digits:
  assumes "ds \<noteq> []" and "\<forall>c \<in> set ds. isDigit c" and "rest = [] \<or> \<not> isDigit (hd rest)"
  shows "parseInt10 (ds @ rest) = dbl (digits_value ds)"
    and "parseInt10 (CHR ''-'' # ds @ rest) = dbl (- digits_value ds)"
proof -
  from assms obtain c cs where ds: "ds = c # cs" by (cases ds) auto
  with assms have c: "isDigit c" by simp
  have tw: "takeWhile isDigit (ds @ rest) = ds" using assms(2,3) by (rule takeWhile_digits)
  have m: "\<not> isWhiteSpace CHR ''-''" by (simp add: isWhiteSpace_def)
  have dw: "dropWhile isWhiteSpace (ds @ rest) = ds @ rest"
    using c isDigit_plain [OF c] by (simp add: ds)
  have hd: "(case ds @ rest of [] \<Rightarrow> False | c # x \<Rightarrow> c = CHR ''-'') = False"
    "(case ds @ rest of [] \<Rightarrow> [] | c # cs \<Rightarrow> if c = CHR ''-'' \<or> c = CHR ''+'' then cs else ds @ rest)
       = ds @ rest"
    using isDigit_plain [OF c] by (simp_all add: ds)
  show "parseInt10 (ds @ rest) = dbl (digits_value ds)"
    unfolding parseInt10_def Let_def dw hd tw using assms(1) by simp
  have dw2: "dropWhile isWhiteSpace (CHR ''-'' # ds @ rest) = CHR ''-'' # ds @ rest"
    using m by simp
  show "parseInt10 (CHR ''-'' # ds @ rest) = dbl (- digits_value ds)"
    unfolding parseInt10_def Let_def dw2 using assms(1) tw by simp
qed

section \<open>What is written for a number reads back\<close>

lemma pick_SomeD:
  assumes "pick v j = Some d"
  shows "valid_digits v d"
    and "d = (v div 10 ^ j) * 10 ^ j \<or> d = (v div 10 ^ j + 1) * 10 ^ j"
  using assms by (auto simp: pick_def Let_def split: if_splits)

lemma first_pick_cases:
  "first_pick v js = v \<or> (\<exists>j \<in> set js. pick v j = Some (first_pick v js))"
  by (induction js) (auto split: option.splits)

lemma shortest_cases:
  "shortest v = v
   \<or> (\<exists>j \<le> length (decimal v). valid_digits v (shortest v)
         \<and> (shortest v = (v div 10 ^ j) * 10 ^ j \<or> shortest v = (v div 10 ^ j + 1) * 10 ^ j))"
proof -
  from first_pick_cases [of v "rev [0..<Suc (length (decimal v))]"]
  consider "shortest v = v"
    | j where "j \<in> set (rev [0..<Suc (length (decimal v))])" "pick v j = Some (shortest v)"
    unfolding shortest_def by blast
  then show ?thesis
  proof cases
    case 1
    then show ?thesis by simp
  next
    case 2
    from 2(1) have "j \<le> length (decimal v)" by auto
    with pick_SomeD [OF 2(2)] show ?thesis by blast
  qed
qed

lemma shortest_pos: "0 < v \<Longrightarrow> 0 < shortest v"
  using shortest_cases [of v] by (auto simp: valid_digits_def)




lemma exponent_form_shape:
  assumes "0 < d"
  shows "\<exists>m rest. exponent_form d = decimal m @ rest \<and> 0 \<le> m \<and> m < 10
           \<and> \<not> (rest \<noteq> [] \<longrightarrow> isDigit (hd rest))"
proof -
  let ?ds = "decimal d"
  let ?sig = "rev (dropWhile (\<lambda>c. c = CHR ''0'') (rev ?ds))"
  let ?e = "''e+'' @ decimal (int (length ?ds) - 1)"
  from decimal_nonzero [OF assms] have "?sig \<noteq> []"
    by (auto simp: dropWhile_eq_Nil_conv)
  then obtain c cs where sig: "?sig = c # cs" by (cases ?sig) auto
  have "c \<in> set ?sig" using sig by simp
  then have "c \<in> set ?ds" by (auto dest: set_dropWhileD)
  then have dig: "isDigit c" using assms decimal_digits [of d c] by simp
  let ?m = "int (of_char c) - 48"
  have m: "0 \<le> ?m" "?m < 10" using dig by (auto simp: isDigit_def)
  have "48 + nat ?m = (of_char c :: nat)" using dig by (auto simp: isDigit_def)
  then have "char_of (48 + nat ?m) = c" by simp
  moreover have "nat ?m < 10" using dig by (auto simp: isDigit_def)
  ultimately have "digit_char (nat ?m) = c" unfolding digit_char_def by (simp only: if_True)
  then have one: "decimal ?m = [c]" using m by (simp add: decimal_small)
  have nd: "\<not> isDigit CHR ''e''" "\<not> isDigit CHR ''.''" by (simp_all add: isDigit_def)
  show ?thesis
  proof (cases cs)
    case Nil
    then have "exponent_form d = decimal ?m @ ?e"
      using sig one by (simp add: exponent_form_def Let_def)
    with m nd show ?thesis by (intro exI [of _ ?m] exI [of _ ?e]) simp
  next
    case (Cons x xs)
    then have "exponent_form d = decimal ?m @ (CHR ''.'' # cs @ ?e)"
      using sig one by (simp add: exponent_form_def Let_def)
    with m nd show ?thesis by (intro exI [of _ ?m] exI [of _ "CHR ''.'' # cs @ ?e"]) simp
  qed
qed

lemma nat_toString_shape:
  assumes "0 \<le> v"
  shows "\<exists>m rest. nat_toString v = decimal m @ rest \<and> 0 \<le> m \<and> m < 10 ^ 21
           \<and> (rest = [] \<or> \<not> isDigit (hd rest))"
proof (cases "v < 2 ^ 53")
  case True
  then have "nat_toString v = decimal v @ []" "v < 10 ^ 21" by (simp_all add: nat_toString_def)
  with assms show ?thesis by blast
next
  case False
  then have "0 < v" by simp
  then have pos: "0 < shortest v" by (rule shortest_pos)
  show ?thesis
  proof (cases "length (decimal (shortest v)) \<le> 21")
    case True
    have "shortest v < 10 ^ length (decimal (shortest v))" using pos by (simp add: decimal_lt)
    also have "\<dots> \<le> 10 ^ 21" by (rule power_increasing) (use True in simp_all)
    finally have "shortest v < 10 ^ 21" .
    moreover have "nat_toString v = decimal (shortest v) @ []"
      using \<open>\<not> v < 2 ^ 53\<close> True by (simp add: nat_toString_def Let_def)
    ultimately show ?thesis using pos by (intro exI [of _ "shortest v"] exI [of _ "[]"]) simp
  next
    case long: False
    from exponent_form_shape [OF pos] obtain m rest where
      "exponent_form (shortest v) = decimal m @ rest" "0 \<le> m" "m < 10"
      "\<not> (rest \<noteq> [] \<longrightarrow> isDigit (hd rest))" by blast
    moreover have "nat_toString v = exponent_form (shortest v)"
      using \<open>\<not> v < 2 ^ 53\<close> long by (simp add: nat_toString_def Let_def)
    ultimately show ?thesis by (intro exI [of _ m] exI [of _ rest]) auto
  qed
qed

lemma parseInt10_decimal:
  assumes "0 \<le> m" and "rest = [] \<or> \<not> isDigit (hd rest)"
  shows "parseInt10 (decimal m @ rest) = dbl m"
    and "parseInt10 (CHR ''-'' # decimal m @ rest) = dbl (- m)"
  using parseInt10_digits [OF decimal_ne _ assms(2), of m] assms(1)
  by (simp_all add: decimal_digits digits_value_decimal)

lemma parse_toString_range:
  assumes "0 \<le> v"
  shows "\<exists>m. parseInt10 (number_toString (Num v)) = Num m \<and> 0 \<le> m \<and> m \<le> 2 ^ 70"
proof -
  from nat_toString_shape [OF assms] obtain m rest where
    s: "nat_toString v = decimal m @ rest" "0 \<le> m" "m < 10 ^ 21"
      "rest = [] \<or> \<not> isDigit (hd rest)" by blast
  have "parseInt10 (number_toString (Num v)) = dbl m"
    using assms s(1) parseInt10_decimal(1) [OF s(2) s(4)] by simp
  moreover have "m < 2 ^ 70" using s(3) by simp
  ultimately show ?thesis using dbl_range [OF s(2), of 70] by simp
qed




section \<open>Frames of the operations\<close>


lemma settled_frame:
  "inflight (sendMessage_settled seedA ts seedE date c out s) = inflight s"
  "localStorage (sendMessage_settled seedA ts seedE date c out s) = localStorage s"
  "userId (sendMessage_settled seedA ts seedE date c out s) = userId s"
  "sessionId (sendMessage_settled seedA ts seedE date c out s) = sessionId s"
  "isGenerating (sendMessage_settled seedA ts seedE date c out s) = False"
  by (simp_all add: sendMessage_settled_def Let_def split: outcome.splits)

lemma settled_failed:
  assumes "failed out"
  shows "points (sendMessage_settled seedA ts seedE date c out s) = points s"
    "history (sendMessage_settled seedA ts seedE date c out s) = history s"
    "messages (sendMessage_settled seedA ts seedE date c out s) = messages s"
  using assms by (auto simp: failed_def sendMessage_settled_def split: outcome.splits)

section \<open>Submitting twice\<close>

text \<open>A submit through the callback of a render that has read \<^verbatim>\<open>isGenerating\<close> as true
  changes nothing: the guard of line 510 holds for a page that has rendered since the
  first submit.\<close>

lemma submit_after_render_noop: "isGenerating s \<Longrightarrow> sendMessage seed ts s = s"
  by (simp add: sendMessage_def sendMessage_in_def closure_of_def)

text \<open>
  C4. The guard of line 510 reads \<^verbatim>\<open>isGenerating\<close> as the render that created the callback
  has read it. After a first submit the page is generating with one call in flight; a
  second submit through the same callback, before the page has rendered again, still
  reads \<^verbatim>\<open>isGenerating\<close> as false: it appends a second user message and starts a second
  call, so that two calls are in flight at once.
\<close>

theorem second_submit_same_render:
  "isGenerating (run demo_json (take 3 double_submit) (initial_page None))
   \<and> length (inflight (run demo_json (take 3 double_submit) (initial_page None))) = 1
   \<and> map msg_content (messages (run demo_json (take 3 double_submit) (initial_page None)))
       = [''tema'']
   \<and> double_submit = take 3 double_submit @ [Submit (''b'', 2) ''10:00'']
   \<and> length (inflight (run demo_json double_submit (initial_page None))) = 2
   \<and> map msg_content (messages (run demo_json double_submit (initial_page None)))
       = [''tema'', ''tema'']
   \<and> points (run demo_json double_submit (initial_page None)) = Num 250"
  by code_simp

section \<open>Failure, success and the balance check\<close>

text \<open>
  C2. When a call in flight settles as a failure, by rejecting or by resolving without
  success, the balance, the archive and the session are what they were before; and for
  a whole attempt from an idle page whose submit is accepted, the balance and the archive
  after the failure are those before the submit, and the session is the one before the
  submit followed by the user's message. (The submit is that of a page that shows its
  current state.)
\<close>

theorem no_charge_on_failure:
  assumes "failed out" and "i < length (inflight s)"
  shows "points (step js (Settle i out seedA ts seedE date) s) = points s
       \<and> history (step js (Settle i out seedA ts seedE date) s) = history s
       \<and> messages (step js (Settle i out seedA ts seedE date) s) = messages s
       \<and> (trim (inputValue s0) \<noteq> [] \<and> \<not> isGenerating s0 \<and> \<not> num_less (points s0) (Num 75)
            \<and> inflight s0 = [] \<longrightarrow>
          (let s1 = sendMessage seed ts0 s0;
               s2 = step js (Settle 0 out seedA ts seedE date) s1
           in points s2 = points s0 \<and> history s2 = history s0
              \<and> messages s2 = messages s0 @
                   [\<lparr>msg_id = generateId seed, msg_role = User, msg_content = trim (inputValue s0),
                     msg_timestamp = ts0, msg_artifactFiles = None\<rparr>]
              \<and> length (inflight s1) = 1 \<and> inflight s2 = [] \<and> \<not> isGenerating s2))"
  using assms
  by (auto simp: settled_failed settled_frame sendMessage_def sendMessage_in_def closure_of_def
      Let_def POINTS_PER_GENERATION_def)

theorem no_charge_on_failure_witness:
  "failed Rejected
   \<and> 0 < length (inflight (run demo_json sending_events (initial_page None)))
   \<and> trim (inputValue typed_page) \<noteq> [] \<and> \<not> isGenerating typed_page
   \<and> \<not> num_less (points typed_page) (Num 75) \<and> inflight typed_page = []
   \<and> points (step demo_json (Settle 0 Rejected (''b'', 2) ''10:01'' (''c'', 3) ''01/02/2026'')
        (run demo_json sending_events (initial_page None)))
       = points (run demo_json sending_events (initial_page None))
   \<and> (let s1 = sendMessage (''a'', 1) ''10:00'' typed_page;
           s2 = step demo_json (Settle 0 Rejected (''b'', 2) ''10:01'' (''c'', 3) ''01/02/2026'') s1
       in points s2 = Num 250 \<and> history s2 = []
          \<and> map msg_content (messages s2) = [''tema''])"
proof -
  have h1: "failed Rejected" by code_simp
  have h2: "0 < length (inflight (run demo_json sending_events (initial_page None)))"
    by code_simp
  have h3: "trim (inputValue typed_page) \<noteq> []" "\<not> isGenerating typed_page"
    "\<not> num_less (points typed_page) (Num 75)" "inflight typed_page = []"
    by code_simp+
  have e: "points typed_page = Num 250" "history typed_page = []" "messages typed_page = []"
    "trim (inputValue typed_page) = ''tema''"
    by code_simp+
  show ?thesis
    using no_charge_on_failure [OF h1 h2, of demo_json "(''b'', 2)" "''10:01''" "(''c'', 3)"
        "''01/02/2026''" typed_page "(''a'', 1)" "''10:00''"] h1 h2 h3 e
    by (simp add: Let_def)
qed

lemma archived_rev: "rev (archived e s) = archived e s"
  by (cases "(e, s)" rule: archived.cases) simp_all

lemma archived_cost: "x \<in> set (archived e s) \<Longrightarrow> h_pointCost x = 75"
  by (cases "(e, s)" rule: archived.cases)
     (auto simp: new_entry_def Let_def POINTS_PER_GENERATION_def split: if_splits)

lemma step_history: "\<not> is_reload e \<Longrightarrow> history (step js e s) = archived e s @ history s"
proof (cases e)
  case (Settle i out seedA ts seedE date)
  then show ?thesis
    by (cases out) (simp_all add: sendMessage_settled_def Let_def)
qed (simp_all add: sendMessage_in_def render_def handleBuyPoints_def startNewWork_def
       persist_points_def persist_history_def Let_def split: option.splits)

lemma run_history:
  "list_all (\<lambda>e. \<not> is_reload e) evs \<Longrightarrow>
     history (run js evs s) = rev (archived_all js evs s) @ history s"
proof (induction evs arbitrary: s)
  case Nil
  then show ?case by simp
next
  case (Cons e es)
  then have "history (run js es (step js e s))
      = rev (archived_all js es (step js e s)) @ history (step js e s)" by simp
  moreover have "history (step js e s) = archived e s @ history s"
    using Cons.prems by (simp add: step_history)
  ultimately show ?case by (simp add: archived_rev)
qed

lemma archived_all_cost: "x \<in> set (archived_all js evs s) \<Longrightarrow> h_pointCost x = 75"
  by (induction evs arbitrary: s) (auto dest: archived_cost)

lemma dbl_safe_le: "\<bar>i\<bar> \<le> 2 ^ 53 \<Longrightarrow> dbl i = Num i"
proof (cases "\<bar>i\<bar> < 2 ^ 53")
  case True
  then show ?thesis by (rule dbl_safe)
next
  case False
  assume "\<bar>i\<bar> \<le> 2 ^ 53"
  with False have "i = 2 ^ 53 \<or> i = - (2 ^ 53)" by auto
  moreover have "dbl (2 ^ 53) = Num (2 ^ 53)" "dbl (- (2 ^ 53)) = Num (- (2 ^ 53))"
    by code_simp+
  ultimately show ?thesis by auto
qed

lemma debit_exact:
  "\<bar>b - 75\<bar> \<le> 2 ^ 53 \<Longrightarrow>
     Math_max (Num 0) (num_minus (Num b) (Num 75)) = Num (max 0 (b - 75))"
  using dbl_safe_le [of "b - 75"] by (auto simp: num_minus_def Math_max_def)

text \<open>
  C1. When a call in flight settles with success, the balance afterwards is what the host
  computes for \<^verbatim>\<open>Math.max(0, balance - 75)\<close>, which is \<open>max(0, b - 75)\<close> for a balance \<open>b\<close>
  with \<open>b - 75\<close> of magnitude up to \<open>2^53\<close>, where the host subtracts without rounding;
  and exactly one entry, of point cost 75, is put in front of the archive. Over any run of events of one page, the archive is the entries archived
  by the run, newest first, in front of the archive of the start: with \<open>N\<close> entries
  archived, position \<open>0\<close> holds the last one archived and position \<open>N - 1\<close> the first.
\<close>

theorem exact_charge_on_success:
  assumes "r_success result" and "i < length (inflight s)"
    and "list_all (\<lambda>e. \<not> is_reload e) evs"
  shows "points (step js (Settle i (Resolved result) seedA ts seedE date) s)
           = Math_max (Num 0) (num_minus (points s) (Num 75))
       \<and> (\<forall>b. points s = Num b \<and> \<bar>b - 75\<bar> \<le> 2 ^ 53 \<longrightarrow>
            points (step js (Settle i (Resolved result) seedA ts seedE date) s) = Num (max 0 (b - 75)))
       \<and> (\<exists>e. history (step js (Settle i (Resolved result) seedA ts seedE date) s) = e # history s
              \<and> h_pointCost e = 75
              \<and> archived (Settle i (Resolved result) seedA ts seedE date) s = [e])
       \<and> history (run js evs s0) = rev (archived_all js evs s0) @ history s0
       \<and> (\<forall>e \<in> set (archived_all js evs s0). h_pointCost e = 75)
       \<and> (archived_all js evs s0 \<noteq> [] \<longrightarrow>
            history (run js evs s0) ! 0 = last (archived_all js evs s0)
          \<and> history (run js evs s0) ! (length (archived_all js evs s0) - 1)
              = hd (archived_all js evs s0))"
proof -
  let ?s' = "step js (Settle i (Resolved result) seedA ts seedE date) s"
  let ?es = "archived_all js evs s0"
  have p: "points ?s' = Math_max (Num 0) (num_minus (points s) (Num 75))"
    using assms(1,2) by (simp add: sendMessage_settled_def Let_def POINTS_PER_GENERATION_def)
  have h: "\<exists>e. history ?s' = e # history s \<and> h_pointCost e = 75
              \<and> archived (Settle i (Resolved result) seedA ts seedE date) s = [e]"
    using assms(1,2)
    by (simp add: sendMessage_settled_def Let_def new_entry_def POINTS_PER_GENERATION_def)
  have r: "history (run js evs s0) = rev ?es @ history s0"
    using assms(3) by (rule run_history)
  have o: "?es \<noteq> [] \<Longrightarrow> history (run js evs s0) ! 0 = last ?es
          \<and> history (run js evs s0) ! (length ?es - 1) = hd ?es"
  proof -
    assume ne: "?es \<noteq> []"
    then have "(rev ?es @ history s0) ! 0 = rev ?es ! 0"
      by (simp add: nth_append)
    moreover have "rev ?es ! 0 = last ?es"
      using ne by (simp add: rev_nth last_conv_nth)
    moreover have "(rev ?es @ history s0) ! (length ?es - 1) = rev ?es ! (length ?es - 1)"
      using ne by (simp add: nth_append)
    moreover have "rev ?es ! (length ?es - 1) = hd ?es"
      using ne by (simp add: rev_nth hd_conv_nth)
    ultimately show ?thesis using r by simp
  qed
  have b: "\<forall>b. points s = Num b \<and> \<bar>b - 75\<bar> \<le> 2 ^ 53 \<longrightarrow> points ?s' = Num (max 0 (b - 75))"
    using p debit_exact by auto
  show ?thesis using p b h r o archived_all_cost by blast
qed

theorem exact_charge_on_success_witness:
  "r_success (ok_result ''ok'')
   \<and> 0 < length (inflight (run demo_json sending_events (initial_page None)))
   \<and> list_all (\<lambda>e. \<not> is_reload e) two_rounds
   \<and> archived_all demo_json two_rounds (initial_page None) \<noteq> []
   \<and> points (step demo_json
         (Settle 0 (Resolved (ok_result ''ok'')) (''b'', 2) ''10:01'' (''c'', 3) ''01/02/2026'')
         (run demo_json sending_events (initial_page None))) = Num 175
   \<and> history (run demo_json two_rounds (initial_page None)) ! 0
       = last (archived_all demo_json two_rounds (initial_page None))
   \<and> history (run demo_json two_rounds (initial_page None))
         ! (length (archived_all demo_json two_rounds (initial_page None)) - 1)
       = hd (archived_all demo_json two_rounds (initial_page None))
   \<and> map h_content (history (run demo_json two_rounds (initial_page None)))
       = [''segundo'', ''primeiro'']
   \<and> points (run demo_json two_rounds (initial_page None)) = Num 100"
proof -
  have h1: "r_success (ok_result ''ok'')" by code_simp
  have h2: "0 < length (inflight (run demo_json sending_events (initial_page None)))"
    by code_simp
  have h3: "list_all (\<lambda>e. \<not> is_reload e) two_rounds" by code_simp
  have h4: "archived_all demo_json two_rounds (initial_page None) \<noteq> []" by code_simp
  have p: "points (run demo_json sending_events (initial_page None)) = Num 250" by code_simp
  have e1: "map h_content (history (run demo_json two_rounds (initial_page None)))
       = [''segundo'', ''primeiro'']" by code_simp
  have e2: "points (run demo_json two_rounds (initial_page None)) = Num 100" by code_simp
  note t = exact_charge_on_success [OF h1 h2 h3, of demo_json "(''b'', 2)" "''10:01''" "(''c'', 3)"
        "''01/02/2026''" "initial_page None"]
  have b: "\<bar>250 - 75 :: int\<bar> \<le> 2 ^ 53" by simp
  from t p b have "points (step demo_json
         (Settle 0 (Resolved (ok_result ''ok'')) (''b'', 2) ''10:01'' (''c'', 3) ''01/02/2026'')
         (run demo_json sending_events (initial_page None))) = Num (max 0 (250 - 75))"
    by blast
  then have t2: "points (step demo_json
         (Settle 0 (Resolved (ok_result ''ok'')) (''b'', 2) ''10:01'' (''c'', 3) ''01/02/2026'')
         (run demo_json sending_events (initial_page None))) = Num 175"
    by (simp only: max_def) simp
  from t h4 have t3: "history (run demo_json two_rounds (initial_page None)) ! 0
       = last (archived_all demo_json two_rounds (initial_page None))
   \<and> history (run demo_json two_rounds (initial_page None))
         ! (length (archived_all demo_json two_rounds (initial_page None)) - 1)
       = hd (archived_all demo_json two_rounds (initial_page None))"
    by blast
  show ?thesis using h1 h2 h3 h4 t2 t3 e1 e2 by blast
qed

text \<open>Beyond the bound the host rounds: from a balance of \<open>2^54\<close>, here one read back
  from the storage, the debit leaves \<open>2^54 - 76\<close>.\<close>

theorem exact_charge_counterexample:
  "points rich_page = Num 18014398509481984
   \<and> 0 < length (inflight rich_page) \<and> r_success (ok_result ''ok'')
   \<and> points (step demo_json
         (Settle 0 (Resolved (ok_result ''ok'')) (''b'', 2) ''10:01'' (''c'', 3) ''01/02/2026'')
         rich_page) = Num 18014398509481908
   \<and> Num 18014398509481908 \<noteq> Num (max 0 (18014398509481984 - 75))"
  by code_simp

text \<open>
  C3. A submit with an input that is not empty after trimming, while the page is not
  generating and the balance is below 75, appends no message, starts no call, leaves the
  balance and the archive alone, and raises the top-up signal: the state changes in
  \<^verbatim>\<open>showBuyModal\<close> only.
\<close>

theorem gate_enforcement:
  assumes "trim (inputValue s) \<noteq> []" and "\<not> isGenerating s" and "num_less (points s) (Num 75)"
  shows "sendMessage seed ts s = s\<lparr>showBuyModal := True\<rparr>
       \<and> messages (sendMessage seed ts s) = messages s
       \<and> inflight (sendMessage seed ts s) = inflight s
       \<and> points (sendMessage seed ts s) = points s
       \<and> history (sendMessage seed ts s) = history s
       \<and> showBuyModal (sendMessage seed ts s)"
  using assms
  by (simp add: sendMessage_def sendMessage_in_def closure_of_def POINTS_PER_GENERATION_def)

theorem gate_enforcement_witness:
  "trim (inputValue poor_page) \<noteq> [] \<and> \<not> isGenerating poor_page
   \<and> num_less (points poor_page) (Num 75)
   \<and> sendMessage (''a'', 1) ''10:00'' poor_page = poor_page\<lparr>showBuyModal := True\<rparr>
   \<and> messages (sendMessage (''a'', 1) ''10:00'' poor_page) = []
   \<and> inflight (sendMessage (''a'', 1) ''10:00'' poor_page) = []
   \<and> points (sendMessage (''a'', 1) ''10:00'' poor_page) = Num 30"
proof -
  have h1: "trim (inputValue poor_page) \<noteq> []" by code_simp
  have h2: "\<not> isGenerating poor_page" by code_simp
  have h3: "num_less (points poor_page) (Num 75)" by code_simp
  have e: "messages poor_page = []" "inflight poor_page = []" "points poor_page = Num 30"
    by (simp_all add: poor_page_def initial_page_def)
  show ?thesis
    using gate_enforcement [OF h1 h2 h3, of "(''a'', 1)" "''10:00''"] h1 h2 h3 e by simp
qed

text \<open>
  C10. A submit with an input that is empty after trimming changes nothing, whatever the
  balance: no message, no call, and the top-up signal stays as it was.
\<close>

theorem empty_input_noop:
  assumes "trim (inputValue s) = []"
  shows "sendMessage seed ts s = s"
  using assms by (simp add: sendMessage_def sendMessage_in_def closure_of_def)

theorem empty_input_noop_witness:
  "trim (inputValue blank_page) = [] \<and> num_less (points blank_page) (Num 75)
   \<and> sendMessage (''a'', 1) ''10:00'' blank_page = blank_page
   \<and> \<not> showBuyModal (sendMessage (''a'', 1) ''10:00'' blank_page)"
proof -
  have h1: "trim (inputValue blank_page) = []" by code_simp
  have h2: "num_less (points blank_page) (Num 75)" by code_simp
  have h3: "\<not> showBuyModal blank_page" by code_simp
  show ?thesis
    using empty_input_noop [OF h1, of "(''a'', 1)" "''10:00''"] h1 h2 h3 by simp
qed

section \<open>The history filter\<close>

lemma contains_ci_empty: "contains_ci t []"
  unfolding contains_ci_def by (rule exI [of _ t], rule exI [of _ "[]"], rule exI [of _ "[]"]) simp

text \<open>
  C8. The filter returns, in their order, exactly the entries of the archive that meet the
  three conditions together: the topic contains the search text case-insensitively, the
  level is the level filter unless that is "all", the format is the format filter unless
  that is "all". An empty search text leaves only the other two conditions, and the filter
  with an empty search text, "Medio" and "all" returns exactly the entries of level Medio.
\<close>

theorem filter_correctness:
  "filteredHistory searchText levelFilter formatFilter archive
     = filter (spec_matches searchText levelFilter formatFilter) archive
   \<and> spec_matches [] levelFilter formatFilter e
       = ((levelFilter = ''all'' \<or> h_level e = levelFilter)
          \<and> (formatFilter = ''all'' \<or> h_format e = formatFilter))
   \<and> filteredHistory [] ''Medio'' ''all'' archive = filter (\<lambda>e. h_level e = ''Medio'') archive"
proof -
  have m: "\<And>e. (searchText = [] \<or> str_includes (toLowerCase (h_topic e)) (toLowerCase searchText))
        = contains_ci (h_topic e) searchText"
    using contains_ci_empty by (auto simp: str_includes_lower_iff)
  have 1: "filteredHistory searchText levelFilter formatFilter archive
     = filter (spec_matches searchText levelFilter formatFilter) archive"
    unfolding filteredHistory_def spec_matches_def Let_def by (simp only: m)
  have 2: "spec_matches [] levelFilter formatFilter e
       = ((levelFilter = ''all'' \<or> h_level e = levelFilter)
          \<and> (formatFilter = ''all'' \<or> h_format e = formatFilter))"
    by (simp add: spec_matches_def contains_ci_empty)
  have 3: "filteredHistory [] ''Medio'' ''all'' archive = filter (\<lambda>e. h_level e = ''Medio'') archive"
    by (simp add: filteredHistory_def)
  show ?thesis using 1 2 3 by simp
qed


section \<open>The ledger\<close>

lemma toRadix_ne: "toRadix b n \<noteq> []"
  by (subst toRadix.simps) simp

lemma generateId_ne: "generateId seed \<noteq> []"
  by (simp add: generateId_def toRadix_ne)

lemma getItem_setItem: "getItem k (setItem k' v st) = (if k = k' then Some v else getItem k st)"
  by (simp add: getItem_def setItem_def update_conv')

lemma in_range_iff: "in_range x \<longleftrightarrow> (\<exists>n. x = Num n \<and> 0 \<le> n \<and> n \<le> 2 ^ 100)"
  by (cases x) (simp_all add: in_range_def)

lemma debit_in_range:
  assumes "in_range x"
  shows "in_range (Math_max (Num 0) (num_minus x (Num 75)))"
proof -
  from assms obtain n where n: "x = Num n" "0 \<le> n" "n \<le> 2 ^ 100"
    by (auto simp: in_range_iff)
  show ?thesis
  proof (cases "n < 75")
    case True
    then have "\<bar>n - 75\<bar> < 2 ^ 53" using n(2) by simp
    then have "dbl (n - 75) = Num (n - 75)" by (rule dbl_safe)
    with True n show ?thesis by (simp add: num_minus_def Math_max_def in_range_def)
  next
    case False
    then have "0 \<le> n - 75" "n - 75 < 2 ^ 100" using n(3) by simp_all
    from dbl_range [OF this] obtain m where "dbl (n - 75) = Num m" "0 \<le> m" "m \<le> 2 ^ 100"
      by auto
    with n show ?thesis by (auto simp: num_minus_def Math_max_def in_range_def)
  qed
qed

lemma credit_in_range:
  assumes "in_range x"
  shows "in_range (num_plus x (Num (plan_points p)))"
proof -
  from assms obtain n where n: "x = Num n" "0 \<le> n" "n \<le> 2 ^ 100"
    by (auto simp: in_range_iff)
  have a: "0 < plan_points p" "plan_points p \<le> 4000" by (cases p; simp)+
  show ?thesis
  proof (cases "n + plan_points p < 2 ^ 100")
    case True
    moreover have "0 \<le> n + plan_points p" using n(2) a(1) by simp
    ultimately obtain m where "dbl (n + plan_points p) = Num m" "0 \<le> m" "m \<le> 2 ^ 100"
      using dbl_range [of "n + plan_points p" 100] by auto
    with n show ?thesis by (simp add: in_range_def)
  next
    case False
    then have "2 ^ 100 \<le> n + plan_points p" "n + plan_points p \<le> 2 ^ 100 + 4000"
      using n(3) a(2) by simp_all
    then have "dbl (n + plan_points p) = Num (2 ^ 100)" by (rule dbl_cap)
    with n show ?thesis by (simp add: in_range_def)
  qed
qed

lemma stored_in_range:
  assumes "in_range x"
  shows "in_range (parseInt10 (number_toString x))"
proof -
  from assms obtain n where n: "x = Num n" "0 \<le> n" by (auto simp: in_range_iff)
  from parse_toString_range [OF n(2)] obtain m where
    "parseInt10 (number_toString (Num n)) = Num m" "0 \<le> m" "m \<le> 2 ^ 70" by blast
  moreover have "(2::int) ^ 70 \<le> 2 ^ 100" by simp
  ultimately show ?thesis using n(1) by (simp add: in_range_def)
qed

lemma ledger_inv_step: "ledger_inv s \<Longrightarrow> ledger_inv (step js e s)"
proof (cases e)
  case (Type v)
  assume "ledger_inv s"
  then show ?thesis unfolding Type by (simp add: ledger_inv_def)
next
  case Render
  assume "ledger_inv s"
  then show ?thesis unfolding Render by (simp add: ledger_inv_def render_def closure_of_def)
next
  case (Submit seed ts)
  assume "ledger_inv s"
  then show ?thesis unfolding Submit by (simp add: ledger_inv_def sendMessage_in_def Let_def)
next
  case (Settle i out seedA ts seedE date)
  assume "ledger_inv s"
  then show ?thesis unfolding Settle
    by (auto simp: ledger_inv_def sendMessage_settled_def Let_def POINTS_PER_GENERATION_def
        debit_in_range split: outcome.splits)
next
  case (Buy p)
  assume "ledger_inv s"
  then show ?thesis unfolding Buy
    by (simp add: ledger_inv_def handleBuyPoints_def credit_in_range)
next
  case (NewWork seed)
  assume "ledger_inv s"
  then show ?thesis unfolding NewWork
    by (auto simp: ledger_inv_def startNewWork_def Let_def getItem_setItem
        split: option.splits)
next
  case PersistPoints
  assume "ledger_inv s"
  then show ?thesis unfolding PersistPoints
    by (auto simp: ledger_inv_def persist_points_def getItem_setItem stored_in_range
        split: option.splits)
next
  case PersistHistory
  assume "ledger_inv s"
  then show ?thesis unfolding PersistHistory
    by (auto simp: ledger_inv_def persist_history_def getItem_setItem split: option.splits)
next
  case (Reload u v)
  assume inv: "ledger_inv s"
  have i250: "in_range (Num INITIAL_POINTS)" by (simp add: in_range_def INITIAL_POINTS_def)
  show ?thesis unfolding Reload using inv i250
    by (auto simp: ledger_inv_def reload_def init_effect_def initial_page_def Let_def
        getItem_setItem split: option.splits parsed.splits)
qed

lemma ledger_inv_run: "ledger_inv s \<Longrightarrow> ledger_inv (run js evs s)"
  by (induction evs arbitrary: s) (simp_all add: ledger_inv_step)

text \<open>
  C5. Starting from the initial balance, with a storage that holds no balance, the balance
  is a non-negative integer after every run of events: the debit on success, floored at 0,
  the credit of each purchase plan, and the balance read back on startup, which is one
  that the page has written, all keep it so.
\<close>

theorem balance_never_negative:
  assumes "no_stored_balance st"
  shows "\<exists>n. points (run js evs (initial_page st)) = Num n \<and> 0 \<le> n"
proof -
  have "in_range (Num INITIAL_POINTS)" by (simp add: in_range_def INITIAL_POINTS_def)
  then have "ledger_inv (initial_page st)"
    using assms by (auto simp: ledger_inv_def initial_page_def no_stored_balance_def
        split: option.splits)
  then have "ledger_inv (run js evs (initial_page st))" by (rule ledger_inv_run)
  then show ?thesis by (auto simp: ledger_inv_def in_range_iff)
qed

theorem balance_never_negative_witness:
  "no_stored_balance (Some [])
   \<and> (\<exists>n. points (run demo_json (stored_events @ [PersistPoints, Reload (''x'', 9) (''y'', 10)])
              (initial_page (Some []))) = Num n \<and> 0 \<le> n)
   \<and> points (run demo_json (stored_events @ [PersistPoints, Reload (''x'', 9) (''y'', 10)])
              (initial_page (Some []))) = Num 1175"
proof -
  have h: "no_stored_balance (Some [])" by code_simp
  have e: "points (run demo_json (stored_events @ [PersistPoints, Reload (''x'', 9) (''y'', 10)])
              (initial_page (Some []))) = Num 1175" by code_simp
  show ?thesis
    using balance_never_negative [OF h, of demo_json
        "stored_events @ [PersistPoints, Reload (''x'', 9) (''y'', 10)]"] h e
    by blast
qed

text \<open>The startup effect takes the stored balance as \<^verbatim>\<open>parseInt\<close> reads it: a storage
  that holds \<^verbatim>\<open>-5\<close> gives the balance \<open>-5\<close>.\<close>

theorem balance_never_negative_counterexample:
  "points (run demo_json [Reload (''u'', 7) (''s'', 8)] (initial_page negative_storage)) = Num (- 5)
   \<and> \<not> (\<exists>n. points (run demo_json [Reload (''u'', 7) (''s'', 8)] (initial_page negative_storage))
              = Num n \<and> 0 \<le> n)"
proof -
  have "points (run demo_json [Reload (''u'', 7) (''s'', 8)] (initial_page negative_storage))
      = Num (- 5)" by code_simp
  then show ?thesis by simp
qed

section \<open>Persisting and starting again\<close>

text \<open>The startup effect on an available storage whose archive can be read leaves the
  user identifier in the storage and in the state, and nothing but a reload touches it.\<close>

lemma startup_identity:
  assumes "localStorage s = Some st" and "readable js st"
  shows "identity_inv (init_effect js u v s)"
  using assms
  by (auto simp: identity_inv_def readable_def init_effect_def Let_def getItem_setItem
      generateId_ne split: option.splits parsed.splits)

lemma identity_inv_step:
  assumes "identity_inv s" and "\<not> is_reload e"
  shows "identity_inv (step js e s)"
proof (cases e)
  case (Submit seed ts)
  with assms show ?thesis
    by (auto simp: identity_inv_def sendMessage_in_def Let_def split: option.splits)
next
  case (Settle i out seedA ts seedE date)
  with assms show ?thesis
    by (auto simp: identity_inv_def settled_frame split: option.splits)
next
  case (Reload u v)
  with assms show ?thesis by simp
qed (use assms in \<open>auto simp: identity_inv_def render_def handleBuyPoints_def startNewWork_def
       persist_points_def persist_history_def Let_def getItem_setItem split: option.splits\<close>)

lemma identity_inv_run:
  "identity_inv s \<Longrightarrow> list_all (\<lambda>e. \<not> is_reload e) evs \<Longrightarrow> identity_inv (run js evs s)"
  by (induction evs arbitrary: s) (simp_all add: identity_inv_step)




section \<open>The topic of an entry\<close>













end
